theory Spec2Isabelle
  imports Main "HOL-Library.Char_ord" "HOL-Library.List_Lexorder" "HOL-Library.Sublist"
begin

section \<open>Values of the configuration document\<close>

text \<open>
  \<^verbatim>\<open>xray2link.py\<close> works on the tree that \<^verbatim>\<open>json.load\<close> returns: dictionaries, lists,
  strings, integers, booleans and \<^verbatim>\<open>None\<close>. A dictionary is kept as the list of its items
  in insertion order; a key is looked up with \<open>map_of\<close>.

  Scope of the model. A Python string is a sequence of code points; a \<open>string\<close> here is
  the Python string whose code points are the values of its characters, so the model
  covers the strings whose code points are all below 256. JSON numbers with a fraction or
  an exponent (Python floats) are not part of the model.
\<close>

datatype json =
    JNull
  | JBool bool
  | JInt int
  | JStr string
  | JList "json list"
  | JObj "(string \<times> json) list"

datatype py_error = AttributeError | TypeError

text \<open>\<^verbatim>\<open>d.get(key, default)\<close>; on anything but a dictionary the attribute is missing.\<close>

definition dict_get :: "json \<Rightarrow> string \<Rightarrow> json \<Rightarrow> py_error + json" where
  "dict_get d key dflt =
     (case d of
        JObj items \<Rightarrow> Inr (case map_of items key of Some v \<Rightarrow> v | None \<Rightarrow> dflt)
      | _ \<Rightarrow> Inl AttributeError)"

text \<open>
  \<^verbatim>\<open>for x in v\<close>: a list gives its elements, a string its characters, a dictionary its
  keys; the other values are not iterable.
\<close>

definition py_iter :: "json \<Rightarrow> py_error + json list" where
  "py_iter v =
     (case v of
        JList xs \<Rightarrow> Inr xs
      | JStr s \<Rightarrow> Inr (map (\<lambda>c. JStr [c]) s)
      | JObj items \<Rightarrow> Inr (map (\<lambda>kv. JStr (fst kv)) items)
      | _ \<Rightarrow> Inl TypeError)"

text \<open>Truth value of an object in a condition.\<close>

fun py_truthy :: "json \<Rightarrow> bool" where
  "py_truthy JNull = False"
| "py_truthy (JBool b) = b"
| "py_truthy (JInt n) = (n \<noteq> 0)"
| "py_truthy (JStr s) = (s \<noteq> [])"
| "py_truthy (JList xs) = (xs \<noteq> [])"
| "py_truthy (JObj items) = (items \<noteq> [])"

text \<open>\<^verbatim>\<open>protocol not in ['vless', 'vmess', 'trojan']\<close>, negated.\<close>

definition supported_protocol :: "json \<Rightarrow> bool" where
  "supported_protocol protocol \<longleftrightarrow>
     protocol = JStr ''vless'' \<or> protocol = JStr ''vmess'' \<or> protocol = JStr ''trojan''"

section \<open>Client Locator\<close>

subsection \<open>\<^verbatim>\<open>sorted(list(set(all_emails)))\<close>\<close>

text \<open>
  The collected values are truthy, so they are non-empty strings, non-zero integers,
  \<^verbatim>\<open>True\<close>, or non-empty lists and dictionaries. Lists and dictionaries are unhashable.
  \<^verbatim>\<open>True\<close> and \<^verbatim>\<open>1\<close> are equal and hash alike; a set keeps the one inserted first.
  Sorting compares strings by code point and numbers by value; a string and a number do
  not compare. The result does not depend on the order in which the set is enumerated,
  since the elements of a set are pairwise different.
\<close>

fun hashable :: "json \<Rightarrow> bool" where
  "hashable (JList xs) = False"
| "hashable (JObj items) = False"
| "hashable v = True"

fun is_str :: "json \<Rightarrow> bool" where
  "is_str (JStr s) = True"
| "is_str v = False"

fun str_of :: "json \<Rightarrow> string" where
  "str_of (JStr s) = s"
| "str_of v = []"





subsection \<open>\<^verbatim>\<open>list_all_clients\<close>\<close>


text \<open>\<^verbatim>\<open>inbound.get('settings', {}).get('clients', [])\<close>, then the iteration over it.\<close>

definition client_list_of :: "json \<Rightarrow> py_error + json list" where
  "client_list_of inbound =
     (case dict_get inbound ''settings'' (JObj []) of
        Inl e \<Rightarrow> Inl e
      | Inr settings \<Rightarrow>
          (case dict_get settings ''clients'' (JList []) of
             Inl e \<Rightarrow> Inl e
           | Inr client_list \<Rightarrow> py_iter client_list))"


text \<open>\<^verbatim>\<open>config.get('inbounds', [])\<close>, then the iteration over it.\<close>

definition inbounds_of :: "json \<Rightarrow> py_error + json list" where
  "inbounds_of config =
     (case dict_get config ''inbounds'' (JList []) of
        Inl e \<Rightarrow> Inl e
      | Inr inbounds \<Rightarrow> py_iter inbounds)"


subsection \<open>\<^verbatim>\<open>find_client_config\<close>\<close>

text \<open>The dictionary the function returns has exactly these four keys.\<close>

record client_info =
  client_data :: json
  protocol :: json
  port :: json
  stream_settings :: json

text \<open>
  The inner loop; \<^verbatim>\<open>client.get('email') == client_email\<close> compares with the string given
  on the command line. \<open>None\<close> means that the loop ended without returning.
\<close>

fun find_clients_loop ::
  "json \<Rightarrow> json \<Rightarrow> json \<Rightarrow> string \<Rightarrow> json list \<Rightarrow> py_error + client_info option" where
  "find_clients_loop proto inbound_port stream client_email [] = Inr None"
| "find_clients_loop proto inbound_port stream client_email (client # rest) =
     (case dict_get client ''email'' JNull of
        Inl e \<Rightarrow> Inl e
      | Inr email \<Rightarrow>
          if email = JStr client_email
          then Inr (Some \<lparr>client_data = client, protocol = proto,
                          port = inbound_port, stream_settings = stream\<rparr>)
          else find_clients_loop proto inbound_port stream client_email rest)"

fun find_inbounds_loop :: "string \<Rightarrow> json list \<Rightarrow> py_error + client_info option" where
  "find_inbounds_loop client_email [] = Inr None"
| "find_inbounds_loop client_email (inbound # rest) =
     (case dict_get inbound ''protocol'' JNull of
        Inl e \<Rightarrow> Inl e
      | Inr proto \<Rightarrow>
          if \<not> supported_protocol proto then find_inbounds_loop client_email rest
          else
            (case dict_get inbound ''port'' JNull of
               Inl e \<Rightarrow> Inl e
             | Inr inbound_port \<Rightarrow>
                 (case dict_get inbound ''streamSettings'' (JObj []) of
                    Inl e \<Rightarrow> Inl e
                  | Inr stream \<Rightarrow>
                      (case client_list_of inbound of
                         Inl e \<Rightarrow> Inl e
                       | Inr client_list \<Rightarrow>
                           (case find_clients_loop proto inbound_port stream
                                   client_email client_list of
                              Inl e \<Rightarrow> Inl e
                            | Inr (Some info) \<Rightarrow> Inr (Some info)
                            | Inr None \<Rightarrow> find_inbounds_loop client_email rest)))))"

text \<open>\<open>Inr None\<close> is the \<^verbatim>\<open>return None\<close> that the caller reports as "not found".\<close>

definition find_client_config :: "json \<Rightarrow> string \<Rightarrow> py_error + client_info option" where
  "find_client_config config client_email =
     (case inbounds_of config of
        Inl e \<Rightarrow> Inl e
      | Inr inbounds \<Rightarrow> find_inbounds_loop client_email inbounds)"

section \<open>Library functions used by the encoders\<close>

definition py_bind :: "py_error + 'a \<Rightarrow> ('a \<Rightarrow> py_error + 'b) \<Rightarrow> py_error + 'b" where
  "py_bind m f = (case m of Inl e \<Rightarrow> Inl e | Inr x \<Rightarrow> f x)"

text \<open>\<^verbatim>\<open>sep.join(parts)\<close>\<close>

fun join :: "string \<Rightarrow> string list \<Rightarrow> string" where
  "join sep [] = []"
| "join sep [x] = x"
| "join sep (x # y # ys) = x @ sep @ join sep (y # ys)"

subsection \<open>\<^verbatim>\<open>str()\<close> and \<^verbatim>\<open>repr()\<close>\<close>

definition digit_char :: "nat \<Rightarrow> char" where
  "digit_char d = char_of (48 + d)"

fun dec_nat :: "nat \<Rightarrow> string" where
  "dec_nat n = (if n < 10 then [digit_char n] else dec_nat (n div 10) @ [digit_char (n mod 10)])"

declare dec_nat.simps [simp del]

definition dec_int :: "int \<Rightarrow> string" where
  "dec_int i = (if i < 0 then CHR ''-'' # dec_nat (nat (- i)) else dec_nat (nat i))"

definition hex_lower :: "nat \<Rightarrow> char" where
  "hex_lower d = ''0123456789abcdef'' ! (d mod 16)"

definition hex_upper :: "nat \<Rightarrow> char" where
  "hex_upper d = ''0123456789ABCDEF'' ! (d mod 16)"

text \<open>
  \<^verbatim>\<open>repr\<close> of a string. The quote is \<^verbatim>\<open>"\<close> when the string has a \<^verbatim>\<open>'\<close> and no \<^verbatim>\<open>"\<close>,
  else \<^verbatim>\<open>'\<close>. Below 256 the non-printable code points are the controls, DEL, 128 to
  160 and the soft hyphen 173.
\<close>

definition repr_char :: "char \<Rightarrow> char \<Rightarrow> string" where
  "repr_char q c =
     (let n = (of_char c :: nat) in
      if c = q \<or> n = 92 then [CHR 0x5C, c]
      else if n = 9 then [CHR 0x5C, CHR ''t'']
      else if n = 10 then [CHR 0x5C, CHR ''n'']
      else if n = 13 then [CHR 0x5C, CHR ''r'']
      else if n < 32 \<or> n = 127 \<or> (128 \<le> n \<and> n \<le> 160) \<or> n = 173
        then [CHR 0x5C, CHR ''x'', hex_lower (n div 16), hex_lower (n mod 16)]
      else [c])"

definition repr_str :: "string \<Rightarrow> string" where
  "repr_str s =
     (let q = (if CHR 0x27 \<in> set s \<and> CHR 0x22 \<notin> set s then CHR 0x22 else CHR 0x27)
      in [q] @ concat (map (repr_char q) s) @ [q])"

fun py_repr :: "json \<Rightarrow> string" where
  "py_repr JNull = ''None''"
| "py_repr (JBool b) = (if b then ''True'' else ''False'')"
| "py_repr (JInt i) = dec_int i"
| "py_repr (JStr s) = repr_str s"
| "py_repr (JList xs) = ''['' @ join '', '' (map py_repr xs) @ '']''"
| "py_repr (JObj items) =
     ''{'' @ join '', '' (map (\<lambda>(k, v). repr_str k @ '': '' @ py_repr v) items) @ ''}''"

text \<open>\<^verbatim>\<open>str(v)\<close>, which is also what an f-string field \<^verbatim>\<open>{v}\<close> inserts.\<close>

definition py_str :: "json \<Rightarrow> string" where
  "py_str v = (case v of JStr s \<Rightarrow> s | _ \<Rightarrow> py_repr v)"

subsection \<open>\<^verbatim>\<open>urllib.parse.quote\<close>, \<^verbatim>\<open>quote_plus\<close> and \<^verbatim>\<open>urlencode\<close>\<close>

text \<open>\<^verbatim>\<open>s.encode()\<close>: UTF-8, one byte below 128 and two bytes from 128 to 255.\<close>

definition utf8_char :: "char \<Rightarrow> string" where
  "utf8_char c =
     (let n = (of_char c :: nat) in
      if n < 128 then [c] else [char_of (192 + n div 64), char_of (128 + n mod 64)])"

definition utf8_encode :: "string \<Rightarrow> string" where
  "utf8_encode s = concat (map utf8_char s)"

definition always_safe :: "string" where
  "always_safe = ''ABCDEFGHIJKLMNOPQRSTUVWXYZabcdefghijklmnopqrstuvwxyz0123456789_.-~''"

definition quote_byte :: "string \<Rightarrow> char \<Rightarrow> string" where
  "quote_byte safe b =
     (if b \<in> set always_safe \<or> b \<in> set safe then [b]
      else [CHR ''%'', hex_upper (of_char b div 16), hex_upper (of_char b mod 16)])"

definition quote_from_bytes :: "string \<Rightarrow> string \<Rightarrow> string" where
  "quote_from_bytes bs safe = concat (map (quote_byte safe) bs)"

text \<open>\<^verbatim>\<open>quote(string, safe)\<close> on a string; an empty string is returned as it is.\<close>

definition quote_str :: "string \<Rightarrow> string \<Rightarrow> string" where
  "quote_str s safe = (if s = [] then [] else quote_from_bytes (utf8_encode s) safe)"

text \<open>
  \<^verbatim>\<open>quote(x)\<close> with the default \<^verbatim>\<open>safe='/'\<close>, on a value of the document: anything but a
  string reaches \<^verbatim>\<open>quote_from_bytes\<close>, which raises \<^verbatim>\<open>TypeError\<close>.
\<close>

definition quote :: "json \<Rightarrow> py_error + string" where
  "quote v = (case v of JStr s \<Rightarrow> Inr (quote_str s ''/'') | _ \<Rightarrow> Inl TypeError)"

definition quote_plus :: "string \<Rightarrow> string" where
  "quote_plus s =
     (if CHR '' '' \<notin> set s then quote_str s []
      else map (\<lambda>c. if c = CHR '' '' then CHR ''+'' else c) (quote_str s '' ''))"

text \<open>\<^verbatim>\<open>urlencode(params)\<close> on a dictionary with string keys.\<close>

definition urlencode :: "(string \<times> json) list \<Rightarrow> string" where
  "urlencode params =
     join ''&'' (map (\<lambda>(k, v). quote_plus k @ ''='' @ quote_plus (py_str v)) params)"

text \<open>\<^verbatim>\<open>d[key] = value\<close>: an existing key keeps its place, a new one goes last.\<close>

fun dict_set :: "(string \<times> json) list \<Rightarrow> string \<Rightarrow> json \<Rightarrow> (string \<times> json) list" where
  "dict_set [] key v = [(key, v)]"
| "dict_set ((k, x) # items) key v =
     (if k = key then (k, v) # items else (k, x) # dict_set items key v)"

subsection \<open>\<^verbatim>\<open>json.dumps(obj, sort_keys=True, separators=(',', ':'))\<close>\<close>

text \<open>
  The default \<^verbatim>\<open>ensure_ascii=True\<close> leaves the printable ASCII characters except \<^verbatim>\<open>"\<close>
  and the backslash, writes the short escapes, and writes every other code point as
  \<^verbatim>\<open>\uXXXX\<close> with lower-case digits.
\<close>

definition json_escape_char :: "char \<Rightarrow> string" where
  "json_escape_char c =
     (let n = (of_char c :: nat) in
      if n = 34 then [CHR 0x5C, CHR 0x22]
      else if n = 92 then [CHR 0x5C, CHR 0x5C]
      else if n = 10 then [CHR 0x5C, CHR ''n'']
      else if n = 13 then [CHR 0x5C, CHR ''r'']
      else if n = 9 then [CHR 0x5C, CHR ''t'']
      else if n = 8 then [CHR 0x5C, CHR ''b'']
      else if n = 12 then [CHR 0x5C, CHR ''f'']
      else if 32 \<le> n \<and> n \<le> 126 then [c]
      else [CHR 0x5C, CHR ''u'', CHR ''0'', CHR ''0'', hex_lower (n div 16), hex_lower (n mod 16)])"

definition json_string :: "string \<Rightarrow> string" where
  "json_string s = [CHR 0x22] @ concat (map json_escape_char s) @ [CHR 0x22]"

text \<open>
  With \<^verbatim>\<open>sort_keys=True\<close> the items of every dictionary are written in the order of
  their keys. The keys of a dictionary are pairwise different, so the values are never
  compared.
\<close>

function json_dumps :: "json \<Rightarrow> string" where
  "json_dumps JNull = ''null''"
| "json_dumps (JBool b) = (if b then ''true'' else ''false'')"
| "json_dumps (JInt i) = dec_int i"
| "json_dumps (JStr s) = json_string s"
| "json_dumps (JList xs) = ''['' @ join '','' (map json_dumps xs) @ '']''"
| "json_dumps (JObj items) =
     ''{'' @ join '','' (map (\<lambda>kv. json_string (fst kv) @ '':'' @ json_dumps (snd kv))
                             (sort_key fst items)) @ ''}''"
  by pat_completeness auto
termination
proof (relation "measure size")
  show "wf (measure size)" by simp
next
  fix xs :: "json list" and x
  assume "x \<in> set xs"
  then have "size x < Suc (size_list size xs)"
    by (induction xs) auto
  then show "(x, JList xs) \<in> measure size" by simp
next
  fix items :: "(string \<times> json) list" and kv
  assume "kv \<in> set (sort_key fst items)"
  then have "kv \<in> set items" by simp
  then have "size (snd kv) < Suc (size_list (\<lambda>p. Suc (size (snd p))) items)"
    by (induction items) auto
  then show "(snd kv, JObj items) \<in> measure size"
    by (simp add: size_prod_simp)
qed

subsection \<open>\<^verbatim>\<open>base64.b64encode\<close>\<close>

text \<open>
  The standard alphabet \<^verbatim>\<open>A-Z a-z 0-9 + /\<close>, by the position of a character in it.
\<close>

definition b64_char :: "nat \<Rightarrow> char" where
  "b64_char n =
     (let k = n mod 64 in
      if k < 26 then char_of (65 + k)
      else if k < 52 then char_of (71 + k)
      else if k < 62 then char_of (k - 4)
      else if k = 62 then CHR ''+''
      else CHR ''/'')"

text \<open>
  Three bytes give four characters of the alphabet, six bits each; one or two bytes at
  the end give two or three characters and the padding \<^verbatim>\<open>=\<close>. The result of
  \<^verbatim>\<open>b64encode\<close> is ASCII, so the \<^verbatim>\<open>.decode()\<close> that follows it changes nothing.
\<close>

fun b64encode :: "string \<Rightarrow> string" where
  "b64encode [] = []"
| "b64encode [a] =
     (let x = (of_char a :: nat)
      in [b64_char (x div 4), b64_char (x mod 4 * 16), CHR ''='', CHR ''=''])"
| "b64encode [a, b] =
     (let x = (of_char a :: nat); y = (of_char b :: nat)
      in [b64_char (x div 4), b64_char (x mod 4 * 16 + y div 16), b64_char (y mod 16 * 4),
          CHR ''=''])"
| "b64encode (a # b # c # rest) =
     (let x = (of_char a :: nat); y = (of_char b :: nat); z = (of_char c :: nat)
      in [b64_char (x div 4), b64_char (x mod 4 * 16 + y div 16),
          b64_char (y mod 16 * 4 + z div 64), b64_char (z mod 64)] @ b64encode rest)"

section \<open>Link Encoders\<close>

subsection \<open>The parameter blocks that \<^verbatim>\<open>create_vless_url\<close> and \<^verbatim>\<open>create_trojan_url\<close> share\<close>

text \<open>
  The two functions contain the same statements for the settings of the security layer
  (\<^verbatim>\<open>sni\<close>, \<^verbatim>\<open>fp\<close>) and for the settings of the network (\<^verbatim>\<open>path\<close>, \<^verbatim>\<open>host\<close>,
  \<^verbatim>\<open>serviceName\<close>); each block is written once here. \<open>security\<close> is \<^verbatim>\<open>'tls'\<close> or
  \<^verbatim>\<open>'xtls'\<close> where the first block runs.
\<close>

definition security_params ::
  "json \<Rightarrow> json \<Rightarrow> (string \<times> json) list \<Rightarrow> py_error + (string \<times> json) list" where
  "security_params stream security params =
     py_bind (dict_get stream (py_str security @ ''Settings'') (JObj [])) (\<lambda>security_settings.
     py_bind (dict_get security_settings ''serverName'' JNull) (\<lambda>server_name.
     let params1 = (if py_truthy server_name then dict_set params ''sni'' server_name else params) in
     py_bind (dict_get security_settings ''fingerprint'' JNull) (\<lambda>fingerprint.
     Inr (if py_truthy fingerprint then dict_set params1 ''fp'' fingerprint else params1))))"

definition network_params ::
  "json \<Rightarrow> json \<Rightarrow> (string \<times> json) list \<Rightarrow> py_error + (string \<times> json) list" where
  "network_params stream network params =
     (if network = JStr ''ws'' then
        py_bind (dict_get stream ''wsSettings'' (JObj [])) (\<lambda>ws_settings.
        py_bind (dict_get ws_settings ''path'' JNull) (\<lambda>path.
        let params1 = (if py_truthy path then dict_set params ''path'' path else params) in
        py_bind (dict_get ws_settings ''headers'' (JObj [])) (\<lambda>headers.
        py_bind (dict_get headers ''Host'' JNull) (\<lambda>host.
        if py_truthy host then
          py_bind (dict_get ws_settings ''headers'' JNull) (\<lambda>headers'.
          py_bind (dict_get headers' ''Host'' JNull) (\<lambda>host'.
          Inr (dict_set params1 ''host'' host')))
        else Inr params1))))
      else if network = JStr ''grpc'' then
        py_bind (dict_get stream ''grpcSettings'' (JObj [])) (\<lambda>grpc_settings.
        py_bind (dict_get grpc_settings ''serviceName'' JNull) (\<lambda>service_name.
        Inr (if py_truthy service_name then dict_set params ''serviceName'' service_name
             else params)))
      else Inr params)"

definition in_tls_xtls :: "json \<Rightarrow> bool" where
  "in_tls_xtls security \<longleftrightarrow> security = JStr ''tls'' \<or> security = JStr ''xtls''"

subsection \<open>\<^verbatim>\<open>create_vless_url\<close>\<close>

text \<open>The dictionary \<open>params\<close> as it stands before \<^verbatim>\<open>if params:\<close>.\<close>

definition vless_params :: "client_info \<Rightarrow> py_error + (string \<times> json) list" where
  "vless_params info =
     py_bind (dict_get (stream_settings info) ''network'' JNull) (\<lambda>network.
     py_bind (dict_get (stream_settings info) ''security'' JNull) (\<lambda>security.
     let params1 = dict_set [] ''type'' network;
         params2 = (if py_truthy security \<and> security \<noteq> JStr ''none''
                    then dict_set params1 ''security'' security else params1) in
     py_bind (dict_get (client_data info) ''flow'' JNull) (\<lambda>flow.
     let params3 = (if py_truthy flow then dict_set params2 ''flow'' flow else params2) in
     py_bind (if in_tls_xtls security then security_params (stream_settings info) security params3
              else Inr params3) (\<lambda>params4.
     network_params (stream_settings info) network params4))))"

definition create_vless_url :: "client_info \<Rightarrow> string \<Rightarrow> py_error + string" where
  "create_vless_url info server_address =
     py_bind (dict_get (client_data info) ''id'' JNull) (\<lambda>uuid.
     py_bind (dict_get (client_data info) ''email'' (JStr [])) (\<lambda>email.
     py_bind (quote email) (\<lambda>remark.
     let url = ''vless://'' @ py_str uuid @ ''@'' @ server_address @ '':'' @ py_str (port info) in
     py_bind (vless_params info) (\<lambda>params.
     let url1 = (if params \<noteq> [] then url @ ''?'' @ urlencode params else url) in
     Inr (url1 @ ''#'' @ remark)))))"

subsection \<open>\<^verbatim>\<open>create_vmess_url\<close>\<close>

text \<open>The dictionary \<open>share_data\<close> as it is handed to \<^verbatim>\<open>json.dumps\<close>.\<close>

definition vmess_share_data :: "client_info \<Rightarrow> string \<Rightarrow> py_error + (string \<times> json) list" where
  "vmess_share_data info server_address =
     py_bind (dict_get (stream_settings info) ''network'' JNull) (\<lambda>network.
     py_bind (dict_get (stream_settings info) ''security'' JNull) (\<lambda>security.
     py_bind (dict_get (client_data info) ''email'' (JStr [])) (\<lambda>email.
     py_bind (dict_get (client_data info) ''id'' JNull) (\<lambda>uuid.
     py_bind (dict_get (client_data info) ''alterId'' (JInt 0)) (\<lambda>alter_id.
     let share_data =
           [(''v'', JStr ''2''),
            (''ps'', email),
            (''add'', JStr server_address),
            (''port'', JStr (py_str (port info))),
            (''id'', uuid),
            (''aid'', JStr (py_str alter_id)),
            (''net'', network),
            (''type'', JStr ''none''),
            (''tls'', if in_tls_xtls security then security else JStr ''none'')] in
     if network = JStr ''ws'' then
       py_bind (dict_get (stream_settings info) ''wsSettings'' (JObj [])) (\<lambda>ws_settings.
       py_bind (dict_get ws_settings ''path'' (JStr ''/'')) (\<lambda>path.
       let share_data1 = dict_set share_data ''path'' path in
       py_bind (dict_get ws_settings ''headers'' (JObj [])) (\<lambda>headers.
       py_bind (dict_get headers ''Host'' (JStr server_address)) (\<lambda>host.
       Inr (dict_set share_data1 ''host'' host)))))
     else if network = JStr ''grpc'' then
       py_bind (dict_get (stream_settings info) ''grpcSettings'' (JObj [])) (\<lambda>grpc_settings.
       py_bind (dict_get grpc_settings ''serviceName'' JNull) (\<lambda>service_name.
       Inr (dict_set share_data ''path'' service_name)))
     else Inr share_data)))))"

definition create_vmess_url :: "client_info \<Rightarrow> string \<Rightarrow> py_error + string" where
  "create_vmess_url info server_address =
     py_bind (vmess_share_data info server_address) (\<lambda>share_data.
     let json_str = json_dumps (JObj share_data);
         b64_str = b64encode (utf8_encode json_str)
     in Inr (''vmess://'' @ b64_str))"

subsection \<open>\<^verbatim>\<open>create_trojan_url\<close>\<close>

definition trojan_params :: "client_info \<Rightarrow> py_error + (string \<times> json) list" where
  "trojan_params info =
     py_bind (dict_get (stream_settings info) ''network'' JNull) (\<lambda>network.
     py_bind (dict_get (stream_settings info) ''security'' JNull) (\<lambda>security.
     py_bind (if py_truthy security \<and> in_tls_xtls security
              then security_params (stream_settings info) security
                     (dict_set [] ''security'' security)
              else Inr []) (\<lambda>params1.
     let params2 = (if py_truthy network then dict_set params1 ''type'' network else params1) in
     network_params (stream_settings info) network params2)))"

definition create_trojan_url :: "client_info \<Rightarrow> string \<Rightarrow> py_error + string" where
  "create_trojan_url info server_address =
     py_bind (dict_get (client_data info) ''password'' JNull) (\<lambda>password.
     py_bind (dict_get (client_data info) ''email'' (JStr [])) (\<lambda>email.
     py_bind (quote email) (\<lambda>remark.
     let url = ''trojan://'' @ py_str password @ ''@'' @ server_address @ '':''
               @ py_str (port info) in
     py_bind (trojan_params info) (\<lambda>params.
     let url1 = (if params \<noteq> [] then url @ ''?'' @ urlencode params else url) in
     Inr (url1 @ ''#'' @ remark)))))"

section \<open>The configuration as the data model describes it\<close>

text \<open>
  The definitions of this section are not taken from the program: they state, in the
  words of the specification, which documents have the shape of its data model and which
  clients the locator is to look at. The properties of the program are stated with them.
\<close>

text \<open>The value stored under a key of a dictionary, if any.\<close>

definition field :: "json \<Rightarrow> string \<Rightarrow> json option" where
  "field d key = (case d of JObj items \<Rightarrow> map_of items key | _ \<Rightarrow> None)"

definition field_or :: "json \<Rightarrow> string \<Rightarrow> json \<Rightarrow> json" where
  "field_or d key dflt = (case field d key of Some v \<Rightarrow> v | None \<Rightarrow> dflt)"

fun is_dict :: "json \<Rightarrow> bool" where
  "is_dict (JObj items) = True"
| "is_dict v = False"



fun dict_or_absent :: "json option \<Rightarrow> bool" where
  "dict_or_absent None = True"
| "dict_or_absent (Some (JObj items)) = True"
| "dict_or_absent (Some v) = False"














section \<open>Notions used to state the properties of the encoders\<close>

text \<open>
  The parameter names of a query string, as a reader of the URL finds them: the string is
  cut at every \<^verbatim>\<open>&\<close>, empty pieces are dropped, and the name is what stands before the
  first \<^verbatim>\<open>=\<close> of a piece.
\<close>

fun split_on :: "char \<Rightarrow> string \<Rightarrow> string list" where
  "split_on sep [] = [[]]"
| "split_on sep (c # cs) =
     (if c = sep then [] # split_on sep cs
      else (case split_on sep cs of [] \<Rightarrow> [[c]] | p # ps \<Rightarrow> (c # p) # ps))"

definition query_names :: "string \<Rightarrow> string list" where
  "query_names q = map (takeWhile (\<lambda>c. c \<noteq> CHR ''='')) (filter (\<lambda>p. p \<noteq> []) (split_on CHR ''&'' q))"

text \<open>
  A client context whose parts are dictionaries: the client, the stream settings and,
  where present, the settings of the security layer, of WebSocket (with its headers) and
  of gRPC. Any field may be missing.
\<close>

definition info_shape :: "client_info \<Rightarrow> bool" where
  "info_shape info \<longleftrightarrow>
     is_dict (client_data info) \<and>
     is_dict (stream_settings info) \<and>
     dict_or_absent (field (stream_settings info) ''tlsSettings'') \<and>
     dict_or_absent (field (stream_settings info) ''xtlsSettings'') \<and>
     dict_or_absent (field (stream_settings info) ''wsSettings'') \<and>
     dict_or_absent (field (field_or (stream_settings info) ''wsSettings'' (JObj [])) ''headers'') \<and>
     dict_or_absent (field (stream_settings info) ''grpcSettings'')"

text \<open>The email of the client is missing or is a string.\<close>

definition email_str_or_absent :: "client_info \<Rightarrow> bool" where
  "email_str_or_absent info =
     (case field (client_data info) ''email'' of None \<Rightarrow> True | Some v \<Rightarrow> is_str v)"


subsection \<open>Reading a link back\<close>

text \<open>
  What a reader of a link does with it; none of this is code of the program. A hexadecimal
  digit, in either case.
\<close>

definition hex_val :: "char \<Rightarrow> nat option" where
  "hex_val c =
     (let n = (of_char c :: nat) in
      if 48 \<le> n \<and> n \<le> 57 then Some (n - 48)
      else if 65 \<le> n \<and> n \<le> 70 then Some (n - 55)
      else if 97 \<le> n \<and> n \<le> 102 then Some (n - 87)
      else None)"


text \<open>
  Decoding UTF-8, for the code points the model has: one byte below 128, or the two bytes
  of a code point from 128 to 255. \<open>None\<close> for any other byte sequence.
\<close>

fun utf8_decode :: "string \<Rightarrow> string option" where
  "utf8_decode [] = Some []"
| "utf8_decode (b # bs) =
     (let n = (of_char b :: nat) in
      if n < 128 then map_option ((#) b) (utf8_decode bs)
      else if n = 194 \<or> n = 195 then
        (case bs of
           [] \<Rightarrow> None
         | b2 # rest \<Rightarrow>
             (let m = (of_char b2 :: nat) in
              if 128 \<le> m \<and> m < 192
              then map_option ((#) (char_of ((n - 192) * 64 + (m - 128)))) (utf8_decode rest)
              else None))
      else None)"



text \<open>
  \<^verbatim>\<open>base64.b64decode\<close> on a padded text of the standard alphabet: the position of a
  character in the alphabet, and the bytes of each group of four characters. \<open>None\<close> when
  the text is not such an encoding.
\<close>

definition b64_index :: "char \<Rightarrow> nat option" where
  "b64_index c =
     (let n = (of_char c :: nat) in
      if 65 \<le> n \<and> n \<le> 90 then Some (n - 65)
      else if 97 \<le> n \<and> n \<le> 122 then Some (n - 71)
      else if 48 \<le> n \<and> n \<le> 57 then Some (n + 4)
      else if n = 43 then Some 62
      else if n = 47 then Some 63
      else None)"

fun b64decode :: "string \<Rightarrow> string option" where
  "b64decode [] = Some []"
| "b64decode (a # b # c # d # rest) =
     (case (b64_index a, b64_index b) of
        (Some x, Some y) \<Rightarrow>
          if c = CHR ''='' \<and> d = CHR ''='' \<and> rest = []
          then Some [char_of (x * 4 + y div 16)]
          else
            (case b64_index c of
               Some z \<Rightarrow>
                 if d = CHR ''='' \<and> rest = []
                 then Some [char_of (x * 4 + y div 16), char_of (y mod 16 * 16 + z div 4)]
                 else
                   (case b64_index d of
                      Some w \<Rightarrow>
                        map_option
                          (\<lambda>bs. char_of (x * 4 + y div 16) # char_of (y mod 16 * 16 + z div 4)
                                 # char_of (z mod 4 * 64 + w) # bs)
                          (b64decode rest)
                    | None \<Rightarrow> None)
             | None \<Rightarrow> None)
      | _ \<Rightarrow> None)"
| "b64decode cs = None"

text \<open>
  \<^verbatim>\<open>json.loads\<close> on a text without white space. The parser reads integers, strings, the
  three literals, arrays and objects; the members of an object are returned in the order
  of the text. The fuel bounds the number of nested calls, and the length of the text is
  always enough. \<open>None\<close> means that the text is not JSON of this kind.
\<close>

definition is_digit :: "char \<Rightarrow> bool" where
  "is_digit c \<longleftrightarrow> 48 \<le> (of_char c :: nat) \<and> (of_char c :: nat) \<le> 57"

definition digits_value :: "string \<Rightarrow> nat" where
  "digits_value ds = foldl (\<lambda>acc d. 10 * acc + ((of_char d :: nat) - 48)) 0 ds"

text \<open>A JSON integer: an optional minus sign and digits, without a leading zero.\<close>

definition parse_nat :: "string \<Rightarrow> (nat \<times> string) option" where
  "parse_nat s =
     (let ds = takeWhile is_digit s; rest = dropWhile is_digit s in
      if ds = [] \<or> (hd ds = CHR ''0'' \<and> length ds > 1) then None
      else Some (digits_value ds, rest))"

definition parse_int :: "string \<Rightarrow> (int \<times> string) option" where
  "parse_int s =
     (case s of
        [] \<Rightarrow> None
      | c # cs \<Rightarrow>
          if c = CHR ''-''
          then map_option (\<lambda>(n, rest). (- int n, rest)) (parse_nat cs)
          else map_option (\<lambda>(n, rest). (int n, rest)) (parse_nat s))"

text \<open>The character a short escape stands for, and the value of four hexadecimal digits.\<close>

definition unescape :: "char \<Rightarrow> char option" where
  "unescape e =
     (if e = CHR 0x22 then Some (CHR 0x22)
      else if e = CHR 0x5C then Some (CHR 0x5C)
      else if e = CHR ''/'' then Some (CHR ''/'')
      else if e = CHR ''b'' then Some (CHR 0x08)
      else if e = CHR ''f'' then Some (CHR 0x0C)
      else if e = CHR ''n'' then Some (CHR 0x0A)
      else if e = CHR ''r'' then Some (CHR 0x0D)
      else if e = CHR ''t'' then Some (CHR 0x09)
      else None)"

definition hex4 :: "char \<Rightarrow> char \<Rightarrow> char \<Rightarrow> char \<Rightarrow> nat option" where
  "hex4 a b c d =
     (case (hex_val a, hex_val b, hex_val c, hex_val d) of
        (Some w, Some x, Some y, Some z) \<Rightarrow> Some (4096 * w + 256 * x + 16 * y + z)
      | _ \<Rightarrow> None)"

text \<open>The characters of a string up to the closing quote.\<close>

fun parse_chars :: "string \<Rightarrow> (string \<times> string) option" where
  "parse_chars [] = None"
| "parse_chars (c # cs) =
     (if c = CHR 0x22 then Some ([], cs)
      else if c = CHR 0x5C then
        (case cs of
           [] \<Rightarrow> None
         | e # rest \<Rightarrow>
             if e = CHR ''u'' then
               (case rest of
                  h1 # h2 # h3 # h4 # rest' \<Rightarrow>
                    (case hex4 h1 h2 h3 h4 of
                       Some n \<Rightarrow>
                         if n < 256
                         then map_option (\<lambda>(s, r). (char_of n # s, r)) (parse_chars rest')
                         else None
                     | None \<Rightarrow> None)
                | _ \<Rightarrow> None)
             else
               (case unescape e of
                  Some ch \<Rightarrow> map_option (\<lambda>(s, r). (ch # s, r)) (parse_chars rest)
                | None \<Rightarrow> None))
      else if (of_char c :: nat) < 32 then None
      else map_option (\<lambda>(s, r). (c # s, r)) (parse_chars cs))"

fun parse_value :: "nat \<Rightarrow> string \<Rightarrow> (json \<times> string) option"
  and parse_elems :: "nat \<Rightarrow> string \<Rightarrow> (json list \<times> string) option"
  and parse_members :: "nat \<Rightarrow> string \<Rightarrow> ((string \<times> json) list \<times> string) option" where
  "parse_value 0 s = None"
| "parse_value (Suc n) s =
     (case s of
        [] \<Rightarrow> None
      | c # cs \<Rightarrow>
          if c = CHR ''n'' then
            (if take 3 cs = ''ull'' then Some (JNull, drop 3 cs) else None)
          else if c = CHR ''t'' then
            (if take 3 cs = ''rue'' then Some (JBool True, drop 3 cs) else None)
          else if c = CHR ''f'' then
            (if take 4 cs = ''alse'' then Some (JBool False, drop 4 cs) else None)
          else if c = CHR 0x22 then
            map_option (\<lambda>(str, r). (JStr str, r)) (parse_chars cs)
          else if c = CHR ''['' then
            (case cs of
               [] \<Rightarrow> None
             | d # ds \<Rightarrow>
                 if d = CHR '']'' then Some (JList [], ds)
                 else map_option (\<lambda>(xs, r). (JList xs, r)) (parse_elems n cs))
          else if c = CHR ''{'' then
            (case cs of
               [] \<Rightarrow> None
             | d # ds \<Rightarrow>
                 if d = CHR ''}'' then Some (JObj [], ds)
                 else map_option (\<lambda>(items, r). (JObj items, r)) (parse_members n cs))
          else map_option (\<lambda>(i, r). (JInt i, r)) (parse_int s))"
| "parse_elems 0 s = None"
| "parse_elems (Suc n) s =
     (case parse_value n s of
        None \<Rightarrow> None
      | Some (v, []) \<Rightarrow> None
      | Some (v, c # rest) \<Rightarrow>
          if c = CHR '']'' then Some ([v], rest)
          else if c = CHR '','' then map_option (\<lambda>(vs, r). (v # vs, r)) (parse_elems n rest)
          else None)"
| "parse_members 0 s = None"
| "parse_members (Suc n) s =
     (case s of
        [] \<Rightarrow> None
      | q # cs \<Rightarrow>
          if q \<noteq> CHR 0x22 then None
          else
            (case parse_chars cs of
               None \<Rightarrow> None
             | Some (key, []) \<Rightarrow> None
             | Some (key, colon # rest) \<Rightarrow>
                 if colon \<noteq> CHR '':'' then None
                 else
                   (case parse_value n rest of
                      None \<Rightarrow> None
                    | Some (v, []) \<Rightarrow> None
                    | Some (v, c # rest') \<Rightarrow>
                        if c = CHR ''}'' then Some ([(key, v)], rest')
                        else if c = CHR '','' then
                          map_option (\<lambda>(items, r). ((key, v) # items, r)) (parse_members n rest')
                        else None)))"

definition json_loads :: "string \<Rightarrow> json option" where
  "json_loads s = (case parse_value (length s) s of Some (v, []) \<Rightarrow> Some v | _ \<Rightarrow> None)"

text \<open>
  A value with the items of every dictionary put in the order of their keys. Python
  dictionaries are equal whatever the order of their items, so this is the same value.
\<close>

function sort_keys :: "json \<Rightarrow> json" where
  "sort_keys JNull = JNull"
| "sort_keys (JBool b) = JBool b"
| "sort_keys (JInt i) = JInt i"
| "sort_keys (JStr s) = JStr s"
| "sort_keys (JList xs) = JList (map sort_keys xs)"
| "sort_keys (JObj items) =
     JObj (map (\<lambda>kv. (fst kv, sort_keys (snd kv))) (sort_key fst items))"
  by pat_completeness auto
termination
proof (relation "measure size")
  show "wf (measure size)" by simp
next
  fix xs :: "json list" and x
  assume "x \<in> set xs"
  then have "size x < Suc (size_list size xs)"
    by (induction xs) auto
  then show "(x, JList xs) \<in> measure size" by simp
next
  fix items :: "(string \<times> json) list" and kv
  assume "kv \<in> set (sort_key fst items)"
  then have "kv \<in> set items" by simp
  then have "size (snd kv) < Suc (size_list (\<lambda>p. Suc (size (snd p))) items)"
    by (induction items) auto
  then show "(snd kv, JObj items) \<in> measure size"
    by (simp add: size_prod_simp)
qed

text \<open>What follows a number in a text must not be a digit.\<close>

definition not_digit_next :: "string \<Rightarrow> bool" where
  "not_digit_next r = (case r of [] \<Rightarrow> True | c # cs \<Rightarrow> \<not> is_digit c)"

text \<open>Parsing the text of a value gives the value back, with its dictionaries in key order.\<close>

definition round_trips :: "json \<Rightarrow> bool" where
  "round_trips v \<longleftrightarrow>
     (\<forall>n r. length (json_dumps v) \<le> n \<and> not_digit_next r \<longrightarrow>
        parse_value n (json_dumps v @ r) = Some (sort_keys v, r))"

text \<open>The text of one member of an object.\<close>

definition member_text :: "string \<times> json \<Rightarrow> string" where
  "member_text kv = json_string (fst kv) @ '':'' @ json_dumps (snd kv)"

text \<open>
  Reading a vmess link back: the text after \<^verbatim>\<open>vmess://\<close> is Base64-decoded, the bytes are
  decoded as UTF-8 and the text is parsed as JSON.
\<close>

definition vmess_payload :: "string \<Rightarrow> json option" where
  "vmess_payload url =
     (if take 8 url = ''vmess://'' then
        (case b64decode (drop 8 url) of
           None \<Rightarrow> None
         | Some bytes \<Rightarrow>
             (case utf8_decode bytes of
                None \<Rightarrow> None
              | Some text \<Rightarrow> json_loads text))
      else None)"

text \<open>The nine fixed keys of the vmess object, as the specification lists them.\<close>

definition vmess_base :: "client_info \<Rightarrow> string \<Rightarrow> (string \<times> json) list" where
  "vmess_base info server_address =
     [(''v'', JStr ''2''),
      (''ps'', field_or (client_data info) ''email'' (JStr [])),
      (''add'', JStr server_address),
      (''port'', JStr (py_str (port info))),
      (''id'', field_or (client_data info) ''id'' JNull),
      (''aid'', JStr (py_str (field_or (client_data info) ''alterId'' (JInt 0)))),
      (''net'', field_or (stream_settings info) ''network'' JNull),
      (''type'', JStr ''none''),
      (''tls'', if in_tls_xtls (field_or (stream_settings info) ''security'' JNull)
                then field_or (stream_settings info) ''security'' JNull else JStr ''none'')]"

section \<open>The end-to-end example\<close>

definition example_client :: json where
  "example_client =
     JObj [(''id'', JStr ''11111111-1111-1111-1111-111111111111''), (''email'', JStr ''alice'')]"

definition example_stream :: json where
  "example_stream =
     JObj [(''network'', JStr ''ws''),
           (''security'', JStr ''tls''),
           (''tlsSettings'', JObj [(''serverName'', JStr ''example.com'')]),
           (''wsSettings'', JObj [(''path'', JStr ''/ray''),
                                  (''headers'', JObj [(''Host'', JStr ''example.com'')])])]"

definition example_config :: json where
  "example_config =
     JObj [(''inbounds'', JList [
       JObj [(''protocol'', JStr ''vless''),
             (''port'', JInt 443),
             (''streamSettings'', example_stream),
             (''settings'', JObj [(''clients'', JList [example_client])])]])]"

definition example_info :: client_info where
  "example_info =
     \<lparr>client_data = example_client, protocol = JStr ''vless'', port = JInt 443,
      stream_settings = example_stream\<rparr>"












section \<open>Properties of the Client Locator\<close>


lemma dict_get_dict: "is_dict d \<Longrightarrow> dict_get d key dflt = Inr (field_or d key dflt)"
  by (cases d) (simp_all add: dict_get_def field_or_def field_def)




























section \<open>Properties of the parameter dictionaries\<close>

lemma split_on_nonempty: "split_on sep s \<noteq> []"
  by (induction s) (auto split: list.splits)

lemma split_on_no_sep: "sep \<notin> set s \<Longrightarrow> split_on sep s = [s]"
  by (induction s) auto

lemma split_on_append: "sep \<notin> set s \<Longrightarrow> split_on sep (s @ sep # rest) = s # split_on sep rest"
  by (induction s) auto

lemma split_on_join:
  "parts \<noteq> [] \<Longrightarrow> \<forall>p \<in> set parts. sep \<notin> set p \<Longrightarrow> split_on sep (join [sep] parts) = parts"
proof (induction parts rule: induct_list012)
  case 1
  then show ?case by simp
next
  case (2 x)
  then show ?case by (simp add: split_on_no_sep)
next
  case (3 x y ys)
  then show ?case by (simp add: split_on_append)
qed

lemma hex_upper_safe: "hex_upper n \<in> set always_safe"
proof -
  have "\<forall>k \<in> set [0..<16]. ''0123456789ABCDEF'' ! k \<in> set always_safe"
    by code_simp
  moreover have "n mod 16 \<in> set [0..<16]" by simp
  ultimately show ?thesis unfolding hex_upper_def by blast
qed

lemma quote_byte_chars:
  "set (quote_byte safe b) \<subseteq> set always_safe \<union> set safe \<union> {CHR ''%''}"
  by (auto simp: quote_byte_def hex_upper_safe)

lemma quote_str_chars:
  "set (quote_str s safe) \<subseteq> set always_safe \<union> set safe \<union> {CHR ''%''}"
proof (cases "s = []")
  case True
  then show ?thesis by (simp add: quote_str_def)
next
  case False
  then have "set (quote_str s safe) = (\<Union>b \<in> set (utf8_encode s). set (quote_byte safe b))"
    by (simp add: quote_str_def quote_from_bytes_def)
  then show ?thesis using quote_byte_chars [of safe] by blast
qed

lemma quote_plus_chars:
  "set (quote_plus s) \<subseteq> set always_safe \<union> {CHR ''+'', CHR ''%''}"
proof (cases "CHR '' '' \<in> set s")
  case False
  then show ?thesis using quote_str_chars [of s "[]"] by (auto simp: quote_plus_def)
next
  case True
  then show ?thesis using quote_str_chars [of s "'' ''"] by (auto simp: quote_plus_def)
qed

lemma amp_not_safe: "CHR ''&'' \<notin> set always_safe" "CHR ''='' \<notin> set always_safe"
  "CHR ''#'' \<notin> set always_safe"
  by (simp_all add: always_safe_def)

lemma quote_plus_no_amp: "CHR ''&'' \<notin> set (quote_plus s)" "CHR ''='' \<notin> set (quote_plus s)"
  using quote_plus_chars [of s] amp_not_safe by auto

lemma takeWhile_upto_sep: "sep \<notin> set k \<Longrightarrow> takeWhile (\<lambda>c. c \<noteq> sep) (k @ sep # rest) = k"
  by (induction k) auto

lemma query_names_urlencode:
  "query_names (urlencode params) = map (\<lambda>kv. quote_plus (fst kv)) params"
proof (cases "params = []")
  case True
  then show ?thesis by (simp add: urlencode_def query_names_def)
next
  case False
  let ?parts = "map (\<lambda>(k, v). quote_plus k @ ''='' @ quote_plus (py_str v)) params"
  have "\<forall>p \<in> set ?parts. CHR ''&'' \<notin> set p" by (auto simp: quote_plus_no_amp)
  with False have "split_on CHR ''&'' (join ''&'' ?parts) = ?parts"
    by (intro split_on_join) simp_all
  moreover have "filter (\<lambda>p. p \<noteq> []) ?parts = ?parts" by (auto simp: filter_id_conv)
  moreover have "map (takeWhile (\<lambda>c. c \<noteq> CHR ''='')) ?parts = map (\<lambda>kv. quote_plus (fst kv)) params"
    by (auto simp: takeWhile_upto_sep quote_plus_no_amp split: prod.splits)
  ultimately show ?thesis by (simp add: urlencode_def query_names_def)
qed

lemma dict_get_Inr: "dict_get d key dflt = Inr v \<Longrightarrow> is_dict d \<and> v = field_or d key dflt"
  by (cases d) (auto simp: dict_get_def field_or_def field_def)

lemma dict_get_Inr_iff: "dict_get d key dflt = Inr v \<longleftrightarrow> is_dict d \<and> v = field_or d key dflt"
  using dict_get_Inr dict_get_dict by blast

lemma dict_or_absent_field_or: "dict_or_absent (field d key) \<Longrightarrow> is_dict (field_or d key (JObj []))"
  by (cases "field d key" rule: dict_or_absent.cases) (simp_all add: field_or_def)

lemma py_bind_Inr [simp]: "py_bind (Inr x) f = f x"
  by (simp add: py_bind_def)

lemma py_bind_Inl [simp]: "py_bind (Inl e) f = Inl e"
  by (simp add: py_bind_def)

lemma py_bind_eq_Inr: "py_bind m f = Inr y \<longleftrightarrow> (\<exists>x. m = Inr x \<and> f x = Inr y)"
  by (cases m) simp_all

lemma security_params_total:
  assumes "is_dict stream" and "in_tls_xtls security"
    and "dict_or_absent (field stream ''tlsSettings'')"
    and "dict_or_absent (field stream ''xtlsSettings'')"
  shows "\<exists>params'. security_params stream security params = Inr params'"
proof -
  from assms(2) have "py_str security @ ''Settings'' = ''tlsSettings'' \<or>
      py_str security @ ''Settings'' = ''xtlsSettings''"
    by (auto simp: in_tls_xtls_def py_str_def)
  with assms have "is_dict (field_or stream (py_str security @ ''Settings'') (JObj []))"
    by (auto intro: dict_or_absent_field_or)
  with assms(1) show ?thesis
    by (simp add: security_params_def dict_get_dict Let_def)
qed

lemma truthy_host_headers:
  assumes "py_truthy (field_or (field_or ws ''headers'' (JObj [])) ''Host'' JNull)"
  shows "field_or ws ''headers'' JNull = field_or ws ''headers'' (JObj [])"
proof (cases "field ws ''headers''")
  case None
  with assms show ?thesis by (simp add: field_or_def field_def)
next
  case (Some h)
  then show ?thesis by (simp add: field_or_def)
qed

lemma network_params_total:
  assumes "is_dict stream"
    and "dict_or_absent (field stream ''wsSettings'')"
    and "dict_or_absent (field (field_or stream ''wsSettings'' (JObj [])) ''headers'')"
    and "dict_or_absent (field stream ''grpcSettings'')"
  shows "\<exists>params'. network_params stream network params = Inr params'"
proof -
  have ws: "is_dict (field_or stream ''wsSettings'' (JObj []))"
    using assms(2) by (rule dict_or_absent_field_or)
  have hd: "is_dict (field_or (field_or stream ''wsSettings'' (JObj [])) ''headers'' (JObj []))"
    using assms(3) by (rule dict_or_absent_field_or)
  have grpc: "is_dict (field_or stream ''grpcSettings'' (JObj []))"
    using assms(4) by (rule dict_or_absent_field_or)
  show ?thesis
    using assms(1) ws hd grpc
    by (simp add: network_params_def dict_get_dict Let_def truthy_host_headers)
qed

lemma py_bind_total:
  "\<exists>x. m = Inr x \<Longrightarrow> (\<And>x. \<exists>y. f x = Inr y) \<Longrightarrow> \<exists>y. py_bind m f = Inr y"
  by auto

lemma security_step_total:
  assumes "info_shape info"
  shows "\<exists>p. (if in_tls_xtls security
              then security_params (stream_settings info) security params
              else Inr params) = Inr p"
  using security_params_total [of "stream_settings info" security params] assms
  by (cases "in_tls_xtls security") (auto simp: info_shape_def)

lemma network_step_total:
  assumes "info_shape info"
  shows "\<exists>p. network_params (stream_settings info) network params = Inr p"
  using network_params_total [of "stream_settings info"] assms by (auto simp: info_shape_def)

lemma vless_params_total:
  assumes "info_shape info"
  shows "\<exists>params. vless_params info = Inr params"
proof -
  from assms have c: "is_dict (client_data info)" and s: "is_dict (stream_settings info)"
    by (simp_all add: info_shape_def)
  show ?thesis
    unfolding vless_params_def Let_def
    by (simp only: dict_get_dict [OF c] dict_get_dict [OF s] py_bind_Inr)
      (intro py_bind_total security_step_total network_step_total assms)
qed

lemma trojan_params_total:
  assumes "info_shape info"
  shows "\<exists>params. trojan_params info = Inr params"
proof -
  from assms have c: "is_dict (client_data info)" and s: "is_dict (stream_settings info)"
    by (simp_all add: info_shape_def)
  have sec: "\<exists>p. (if py_truthy security \<and> in_tls_xtls security
              then security_params (stream_settings info) security params
              else Inr []) = Inr p" for security params
    using security_params_total [of "stream_settings info" security params] assms
    by (cases "in_tls_xtls security") (auto simp: info_shape_def)
  show ?thesis
    unfolding trojan_params_def Let_def
    by (simp only: dict_get_dict [OF c] dict_get_dict [OF s] py_bind_Inr)
      (intro py_bind_total sec network_step_total assms)
qed

lemma quote_email_total:
  assumes "email_str_or_absent info"
  shows "quote (field_or (client_data info) ''email'' (JStr [])) =
     Inr (quote_str (str_of (field_or (client_data info) ''email'' (JStr []))) ''/'')"
proof (cases "field (client_data info) ''email''")
  case None
  then show ?thesis by (simp add: field_or_def quote_def)
next
  case (Some v)
  with assms obtain s where "v = JStr s" by (cases v) (auto simp: email_str_or_absent_def)
  with Some show ?thesis by (simp add: field_or_def quote_def)
qed

lemma create_vless_url_total:
  assumes "info_shape info" and "email_str_or_absent info"
  shows "\<exists>url. create_vless_url info addr = Inr url"
proof -
  from assms have c: "is_dict (client_data info)" by (simp add: info_shape_def)
  obtain params where "vless_params info = Inr params"
    using vless_params_total [OF assms(1)] by blast
  then show ?thesis
    by (simp add: create_vless_url_def dict_get_dict [OF c] quote_email_total [OF assms(2)] Let_def)
qed

lemma create_trojan_url_total:
  assumes "info_shape info" and "email_str_or_absent info"
  shows "\<exists>url. create_trojan_url info addr = Inr url"
proof -
  from assms have c: "is_dict (client_data info)" by (simp add: info_shape_def)
  obtain params where "trojan_params info = Inr params"
    using trojan_params_total [OF assms(1)] by blast
  then show ?thesis
    by (simp add: create_trojan_url_def dict_get_dict [OF c] quote_email_total [OF assms(2)] Let_def)
qed

lemma vmess_share_data_total:
  assumes "info_shape info"
  shows "\<exists>share_data. vmess_share_data info addr = Inr share_data"
proof -
  from assms have c: "is_dict (client_data info)" and s: "is_dict (stream_settings info)"
    by (simp_all add: info_shape_def)
  have ws: "is_dict (field_or (stream_settings info) ''wsSettings'' (JObj []))"
    using assms by (auto simp: info_shape_def intro: dict_or_absent_field_or)
  have hd: "is_dict (field_or (field_or (stream_settings info) ''wsSettings'' (JObj [])) ''headers'' (JObj []))"
    using assms by (auto simp: info_shape_def intro: dict_or_absent_field_or)
  have grpc: "is_dict (field_or (stream_settings info) ''grpcSettings'' (JObj []))"
    using assms by (auto simp: info_shape_def intro: dict_or_absent_field_or)
  show ?thesis
    by (simp add: vmess_share_data_def dict_get_dict c s ws hd grpc Let_def)
qed

lemma dict_set_keys: "fst ` set (dict_set params key v) = insert key (fst ` set params)"
  by (induction params key v rule: dict_set.induct) auto

lemma dict_set_fresh:
  "key \<notin> fst ` set params \<Longrightarrow> dict_set params key v = params @ [(key, v)]"
  by (induction params key v rule: dict_set.induct) auto

lemma security_params_append:
  assumes "security_params stream security params = Inr params'"
    and "''sni'' \<notin> fst ` set params" and "''fp'' \<notin> fst ` set params"
  shows "\<exists>extra. params' = params @ extra \<and> fst ` set extra \<subseteq> {''sni'', ''fp''}"
proof -
  from assms(1) obtain server_name fingerprint where
    p: "params' =
         (let params1 = (if py_truthy server_name then dict_set params ''sni'' server_name
                         else params)
          in if py_truthy fingerprint then dict_set params1 ''fp'' fingerprint else params1)"
    by (auto simp: security_params_def py_bind_eq_Inr Let_def)
  show ?thesis
  proof (cases "py_truthy server_name")
    case True
    with assms(2,3) have "''fp'' \<notin> fst ` set (dict_set params ''sni'' server_name)"
      by (simp add: dict_set_fresh)
    with True p assms(2) show ?thesis
      by (cases "py_truthy fingerprint") (simp_all add: dict_set_fresh)
  next
    case False
    with p assms(3) show ?thesis
      by (cases "py_truthy fingerprint") (simp_all add: dict_set_fresh)
  qed
qed

lemma network_params_append:
  assumes "network_params stream network params = Inr params'"
    and "''path'' \<notin> fst ` set params" and "''host'' \<notin> fst ` set params"
    and "''serviceName'' \<notin> fst ` set params"
  shows "\<exists>extra. params' = params @ extra \<and>
           fst ` set extra \<subseteq> {''path'', ''host'', ''serviceName''}"
proof (cases "network = JStr ''ws''")
  case True
  with assms(1) obtain params1 where
    p1: "params1 = params \<or> (\<exists>path. params1 = dict_set params ''path'' path)" and
    p2: "params' = params1 \<or> (\<exists>host. params' = dict_set params1 ''host'' host)"
    by (auto simp: network_params_def py_bind_eq_Inr Let_def split: if_splits)
  from p1 assms(2,3) have
    "(params1 = params \<or> (\<exists>path. params1 = params @ [(''path'', path)])) \<and>
     ''host'' \<notin> fst ` set params1"
    by (auto simp: dict_set_fresh)
  with p2 show ?thesis
    by (auto simp: dict_set_fresh)
next
  case False
  note not_ws = this
  show ?thesis
  proof (cases "network = JStr ''grpc''")
    case True
    with not_ws assms(1) obtain service_name where
      "params' = (if py_truthy service_name then dict_set params ''serviceName'' service_name
                  else params)"
      by (auto simp: network_params_def py_bind_eq_Inr)
    with assms(4) show ?thesis
      by (cases "py_truthy service_name") (simp_all add: dict_set_fresh)
  next
    case False
    with not_ws assms(1) show ?thesis by (simp add: network_params_def)
  qed
qed


lemma trojan_params_struct:
  assumes "trojan_params info = Inr params"
  shows "fst ` set params \<subseteq>
           {''security'', ''sni'', ''fp'', ''type'', ''path'', ''host'', ''serviceName''} \<and>
         (''security'' \<in> fst ` set params \<longrightarrow>
            in_tls_xtls (field_or (stream_settings info) ''security'' JNull))"
proof -
  let ?net = "field_or (stream_settings info) ''network'' JNull"
  let ?sec = "field_or (stream_settings info) ''security'' JNull"
  from assms obtain params1 where
    p1: "(if py_truthy ?sec \<and> in_tls_xtls ?sec
          then security_params (stream_settings info) ?sec (dict_set [] ''security'' ?sec)
          else Inr []) = Inr params1"
    and p3: "network_params (stream_settings info) ?net
               (if py_truthy ?net then dict_set params1 ''type'' ?net else params1) = Inr params"
    by (auto simp: trojan_params_def py_bind_eq_Inr Let_def dict_get_Inr_iff)
  have k1: "fst ` set params1 \<subseteq> {''security'', ''sni'', ''fp''} \<and>
      (''security'' \<in> fst ` set params1 \<longrightarrow> in_tls_xtls ?sec)"
  proof (cases "py_truthy ?sec \<and> in_tls_xtls ?sec")
    case True
    with p1 have "security_params (stream_settings info) ?sec [(''security'', ?sec)] = Inr params1"
      by simp
    from security_params_append [OF this] obtain extra where
      "params1 = [(''security'', ?sec)] @ extra" "fst ` set extra \<subseteq> {''sni'', ''fp''}"
      by auto
    with True show ?thesis by fastforce
  next
    case False
    with p1 show ?thesis by auto
  qed
  let ?p2 = "if py_truthy ?net then dict_set params1 ''type'' ?net else params1"
  have k2: "fst ` set ?p2 \<subseteq> {''security'', ''sni'', ''fp'', ''type''} \<and>
      (''security'' \<in> fst ` set ?p2 \<longrightarrow> in_tls_xtls ?sec)"
    using k1 by (auto simp: dict_set_keys)
  define ks where "ks = fst ` set ?p2"
  have sub: "ks \<subseteq> {''security'', ''sni'', ''fp'', ''type''}"
    using k2 by (simp add: ks_def)
  have fresh: "''path'' \<notin> ks" "''host'' \<notin> ks" "''serviceName'' \<notin> ks"
    using sub by auto
  from network_params_append [OF p3 fresh [unfolded ks_def]] obtain e where
    e: "params = ?p2 @ e" "fst ` set e \<subseteq> {''path'', ''host'', ''serviceName''}"
    by blast
  have "fst ` set params = ks \<union> fst ` set e"
    unfolding e(1) ks_def by (simp add: image_Un)
  moreover have "''security'' \<notin> fst ` set e" using e(2) by auto
  moreover have "''security'' \<in> ks \<longrightarrow> in_tls_xtls ?sec" using k2 by (simp add: ks_def)
  ultimately show ?thesis using sub e(2) by auto
qed








section \<open>Properties of percent-encoding\<close>

lemma of_char_lt_256: "(of_char c :: nat) < 256"
  by (cases c) (simp add: of_char_Char)

lemma utf8_decode_char:
  "utf8_decode (utf8_char c @ bs) = map_option ((#) c) (utf8_decode bs)"
proof (cases "(of_char c :: nat) < 128")
  case True
  then show ?thesis by (simp add: utf8_char_def)
next
  case False
  define n where "n = (of_char c :: nat)"
  have n: "128 \<le> n" "n < 256" using False of_char_lt_256 [of c] by (simp_all add: n_def)
  then have d: "n div 64 = 2 \<or> n div 64 = 3" by auto
  have b1: "(of_char (char_of (192 + n div 64) :: char) :: nat) = 192 + n div 64"
    using d by (auto simp: of_char_of)
  have b2: "(of_char (char_of (128 + n mod 64) :: char) :: nat) = 128 + n mod 64"
  proof -
    have "128 + n mod 64 < 256" by simp
    then show ?thesis by (simp add: of_char_of del: mod_mod_trivial)
  qed
  have recov: "char_of ((192 + n div 64 - 192) * 64 + (128 + n mod 64 - 128)) = c"
    by (simp add: n_def)
  show ?thesis
    using False d b1 b2 recov
    by (auto simp: utf8_char_def Let_def n_def [symmetric])
qed

lemma utf8_decode_encode: "utf8_decode (utf8_encode s) = Some s"
  by (induction s) (simp_all add: utf8_encode_def utf8_decode_char)











lemma quote_str_hash: "quote_str ''#'' ''/'' = ''%23''"
  by code_simp









section \<open>Properties of Base64\<close>

lemma b64_alphabet_chars:
  "map b64_char [0..<64] = ''ABCDEFGHIJKLMNOPQRSTUVWXYZabcdefghijklmnopqrstuvwxyz0123456789+/''"
  by code_simp

lemma b64_index_char: "k < 64 \<Longrightarrow> b64_index (b64_char k) = Some k"
  by (auto simp: b64_index_def b64_char_def Let_def)

lemma b64_char_not_pad: "b64_char k \<noteq> CHR ''=''"
proof -
  have "(of_char (b64_char k) :: nat) \<noteq> 61"
    by (auto simp: b64_char_def Let_def)
  then show ?thesis by auto
qed

lemma sextet1: fixes x :: nat shows "x < 256 \<Longrightarrow> x div 4 < 64" by simp

lemma sextet2: fixes x y :: nat shows "y < 256 \<Longrightarrow> x mod 4 * 16 + y div 16 < 64"
proof -
  assume "y < 256"
  then have "y div 16 < 16" by simp
  moreover have "x mod 4 < 4" by simp
  ultimately show ?thesis by linarith
qed

lemma sextet3: fixes y z :: nat shows "z < 256 \<Longrightarrow> y mod 16 * 4 + z div 64 < 64"
proof -
  assume "z < 256"
  then have "z div 64 < 4" by simp
  moreover have "y mod 16 < 16" by simp
  ultimately show ?thesis by linarith
qed

lemma sextet2_last: fixes x :: nat shows "x mod 4 * 16 < 64" 
proof -
  have "x mod 4 < 4" by simp
  then show ?thesis by linarith
qed

lemma sextet3_last: fixes y :: nat shows "y mod 16 * 4 < 64"
proof -
  have "y mod 16 < 16" by simp
  then show ?thesis by linarith
qed

lemma byte1: fixes x y :: nat shows "y < 256 \<Longrightarrow> x div 4 * 4 + (x mod 4 * 16 + y div 16) div 16 = x"
proof -
  assume "y < 256"
  then have "y div 16 < 16" by simp
  then have "(x mod 4 * 16 + y div 16) div 16 = x mod 4" by simp
  then show ?thesis by simp
qed

lemma byte2: fixes x y z :: nat
  shows "y < 256 \<Longrightarrow> z < 256 \<Longrightarrow>
    (x mod 4 * 16 + y div 16) mod 16 * 16 + (y mod 16 * 4 + z div 64) div 4 = y"
proof -
  assume "y < 256" "z < 256"
  then have "z div 64 < 4" "y div 16 < 16" by simp_all
  then have "(y mod 16 * 4 + z div 64) div 4 = y mod 16"
    and "(x mod 4 * 16 + y div 16) mod 16 = y div 16" by simp_all
  then show ?thesis by simp
qed

lemma byte3: fixes y z :: nat
  shows "z < 256 \<Longrightarrow> (y mod 16 * 4 + z div 64) mod 4 * 64 + z mod 64 = z"
proof -
  assume "z < 256"
  then have "z div 64 < 4" by simp
  then have "(y mod 16 * 4 + z div 64) mod 4 = z div 64" by simp
  then show ?thesis by simp
qed

lemma byte1_last: fixes x :: nat shows "x div 4 * 4 + (x mod 4 * 16) div 16 = x"
  by simp

lemma byte2_last: fixes x y :: nat
  shows "y < 256 \<Longrightarrow> (x mod 4 * 16 + y div 16) mod 16 * 16 + (y mod 16 * 4) div 4 = y"
proof -
  assume "y < 256"
  then have "y div 16 < 16" by simp
  then have "(x mod 4 * 16 + y div 16) mod 16 = y div 16" by simp
  then show ?thesis by simp
qed

lemma b64decode_encode: "b64decode (b64encode bs) = Some bs"
proof (induction bs rule: b64encode.induct)
  case 1
  then show ?case by simp
next
  case (2 a)
  define x where "x = (of_char a :: nat)"
  have x: "x < 256" by (simp add: x_def of_char_lt_256)
  have "char_of (x div 4 * 4 + (x mod 4 * 16) div 16) = a"
    by (simp only: byte1_last) (simp add: x_def)
  then show ?case
    using x by (simp add: Let_def x_def [symmetric] b64_index_char sextet1 sextet2_last)
next
  case (3 a b)
  define x where "x = (of_char a :: nat)"
  define y where "y = (of_char b :: nat)"
  have x: "x < 256" and y: "y < 256" by (simp_all add: x_def y_def of_char_lt_256)
  have "char_of (x div 4 * 4 + (x mod 4 * 16 + y div 16) div 16) = a"
    by (simp only: byte1 [OF y]) (simp add: x_def)
  moreover have "char_of ((x mod 4 * 16 + y div 16) mod 16 * 16 + (y mod 16 * 4) div 4) = b"
    by (simp only: byte2_last [OF y]) (simp add: y_def)
  ultimately show ?case
    using x y
    by (simp add: Let_def x_def [symmetric] y_def [symmetric] b64_index_char b64_char_not_pad
        sextet1 sextet2 sextet3_last)
next
  case (4 a b c rest)
  define x where "x = (of_char a :: nat)"
  define y where "y = (of_char b :: nat)"
  define z where "z = (of_char c :: nat)"
  have x: "x < 256" and y: "y < 256" and z: "z < 256"
    by (simp_all add: x_def y_def z_def of_char_lt_256)
  have "char_of (x div 4 * 4 + (x mod 4 * 16 + y div 16) div 16) = a"
    by (simp only: byte1 [OF y]) (simp add: x_def)
  moreover have
    "char_of ((x mod 4 * 16 + y div 16) mod 16 * 16 + (y mod 16 * 4 + z div 64) div 4) = b"
    by (simp only: byte2 [OF y z]) (simp add: y_def)
  moreover have "char_of ((y mod 16 * 4 + z div 64) mod 4 * 64 + z mod 64) = c"
    by (simp only: byte3 [OF z]) (simp add: z_def)
  ultimately show ?case
    using x y z "4.IH"
    by (simp add: Let_def x_def [symmetric] y_def [symmetric] z_def [symmetric] b64_index_char
        b64_char_not_pad sextet1 sextet2 sextet3)
qed

section \<open>Parsing what \<^verbatim>\<open>json.dumps\<close> writes\<close>

lemma of_char_digit: "d < 10 \<Longrightarrow> (of_char (digit_char d) :: nat) = 48 + d"
  by (simp add: digit_char_def)

lemma is_digit_digit_char: "d < 10 \<Longrightarrow> is_digit (digit_char d)"
  by (simp add: is_digit_def of_char_digit)

lemma dec_nat_digits: "c \<in> set (dec_nat n) \<Longrightarrow> is_digit c"
proof (induction n rule: dec_nat.induct)
  case (1 n)
  show ?case
  proof (cases "n < 10")
    case True
    with "1.prems" show ?thesis by (simp add: dec_nat.simps [of n] is_digit_digit_char)
  next
    case False
    with "1.prems" "1.IH" show ?thesis
      by (auto simp: dec_nat.simps [of n] is_digit_digit_char)
  qed
qed

lemma dec_nat_nonempty: "dec_nat n \<noteq> []"
  by (subst dec_nat.simps) simp

lemma digits_value_snoc:
  "digits_value (ds @ [d]) = 10 * digits_value ds + ((of_char d :: nat) - 48)"
  by (simp add: digits_value_def)

lemma digits_value_dec_nat: "digits_value (dec_nat n) = n"
proof (induction n rule: dec_nat.induct)
  case (1 n)
  show ?case
  proof (cases "n < 10")
    case True
    then show ?thesis
      by (simp add: dec_nat.simps [of n] digits_value_def of_char_digit)
  next
    case False
    with "1.IH" show ?thesis
      by (simp add: dec_nat.simps [of n] digits_value_snoc of_char_digit)
  qed
qed

lemma dec_nat_leading_zero: "hd (dec_nat n) = CHR ''0'' \<Longrightarrow> n = 0"
proof (induction n rule: dec_nat.induct)
  case (1 n)
  show ?case
  proof (cases "n < 10")
    case True
    with "1.prems" have "(of_char (digit_char n) :: nat) = 48"
      by (simp add: dec_nat.simps [of n])
    with True show ?thesis by (simp add: of_char_digit)
  next
    case False
    with "1.prems" have "hd (dec_nat (n div 10)) = CHR ''0''"
      by (simp add: dec_nat.simps [of n] dec_nat_nonempty)
    with False "1.IH" have "n div 10 = 0" by simp
    with False show ?thesis by simp
  qed
qed

lemma dec_nat_zero: "dec_nat 0 = ''0''"
  by code_simp

lemma takeWhile_digits:
  "\<forall>c \<in> set ds. is_digit c \<Longrightarrow> not_digit_next r \<Longrightarrow> takeWhile is_digit (ds @ r) = ds"
  by (cases r) (simp_all add: not_digit_next_def takeWhile_append2 takeWhile_eq_all_conv [THEN iffD2])

lemma dropWhile_digits:
  "\<forall>c \<in> set ds. is_digit c \<Longrightarrow> not_digit_next r \<Longrightarrow> dropWhile is_digit (ds @ r) = r"
  by (cases r) (simp_all add: not_digit_next_def dropWhile_append2)

lemma parse_nat_dec_nat:
  assumes "not_digit_next r"
  shows "parse_nat (dec_nat n @ r) = Some (n, r)"
proof -
  have d: "\<forall>c \<in> set (dec_nat n). is_digit c" using dec_nat_digits by blast
  have "\<not> (hd (dec_nat n) = CHR ''0'' \<and> length (dec_nat n) > 1)"
    using dec_nat_leading_zero [of n] dec_nat_zero by auto
  then show ?thesis
    by (simp add: parse_nat_def Let_def takeWhile_digits [OF d assms] dropWhile_digits [OF d assms]
        dec_nat_nonempty digits_value_dec_nat)
qed

lemma dec_nat_first: "\<exists>c cs. dec_nat n = c # cs \<and> is_digit c"
  using dec_nat_nonempty [of n] dec_nat_digits [of _ n] by (cases "dec_nat n") auto

lemma minus_not_digit: "\<not> is_digit (CHR ''-'')"
  by (simp add: is_digit_def)

lemma parse_int_dec_int:
  assumes "not_digit_next r"
  shows "parse_int (dec_int i @ r) = Some (i, r)"
proof (cases "i < 0")
  case True
  then show ?thesis
    by (simp add: parse_int_def dec_int_def parse_nat_dec_nat [OF assms])
next
  case False
  obtain c cs where c: "dec_nat (nat i) = c # cs" "is_digit c"
    using dec_nat_first by blast
  then have "c \<noteq> CHR ''-''" using minus_not_digit by auto
  with False c(1) parse_nat_dec_nat [OF assms, of "nat i"] show ?thesis
    by (simp add: parse_int_def dec_int_def)
qed

lemma hex_val_lower: "k < 16 \<Longrightarrow> hex_val (hex_lower k) = Some k"
proof -
  have "\<forall>k \<in> set [0..<16]. hex_val (''0123456789abcdef'' ! k) = Some k"
    by code_simp
  moreover assume "k < 16"
  ultimately show ?thesis by (simp add: hex_lower_def)
qed

lemma char_eq_of_char: "c = d \<longleftrightarrow> (of_char c :: nat) = of_char d"
  by (metis char_of_char)

lemma hex4_escape:
  assumes "n < 256"
  shows "hex4 (CHR ''0'') (CHR ''0'') (hex_lower (n div 16)) (hex_lower (n mod 16)) = Some n"
proof -
  have "n div 16 < 16" using assms by (simp add: less_mult_imp_div_less)
  moreover have "hex_val (CHR ''0'') = Some 0" by code_simp
  ultimately show ?thesis
    by (simp add: hex4_def hex_val_lower)
qed

lemma char_codes:
  "char_of (34 :: nat) = CHR 0x22" "char_of (92 :: nat) = CHR 0x5C"
  "char_of (10 :: nat) = CHR 0x0A" "char_of (13 :: nat) = CHR 0x0D"
  "char_of (9 :: nat) = CHR 0x09" "char_of (8 :: nat) = CHR 0x08"
  "char_of (12 :: nat) = CHR 0x0C"
  by code_simp+

lemma parse_chars_escape:
  "parse_chars (json_escape_char c @ rest) = map_option (\<lambda>(s, r). (c # s, r)) (parse_chars rest)"
proof -
  define n where "n = (of_char c :: nat)"
  have n: "n < 256" by (simp add: n_def of_char_lt_256)
  have c: "c = char_of n" by (simp add: n_def)
  consider "n = 34" | "n = 92" | "n = 10" | "n = 13" | "n = 9" | "n = 8" | "n = 12"
    | "32 \<le> n" "n \<le> 126" "n \<noteq> 34" "n \<noteq> 92"
    | "n < 32 \<or> 126 < n" "n \<noteq> 10" "n \<noteq> 13" "n \<noteq> 9" "n \<noteq> 8" "n \<noteq> 12"
    by linarith
  then show ?thesis
  proof cases
    case 8
    then have "c \<noteq> CHR 0x22" "c \<noteq> CHR 0x5C" "\<not> (of_char c :: nat) < 32"
      by (simp_all add: char_eq_of_char n_def)
    with 8 show ?thesis
      by (simp add: json_escape_char_def n_def [symmetric])
  next
    case 9
    then have "json_escape_char c =
        [CHR 0x5C, CHR ''u'', CHR ''0'', CHR ''0'', hex_lower (n div 16), hex_lower (n mod 16)]"
      by (auto simp: json_escape_char_def n_def [symmetric])
    then show ?thesis
      using hex4_escape [OF n] n c by simp
  qed (simp_all add: json_escape_char_def n_def [symmetric] unescape_def c char_codes)
qed

lemma parse_chars_string:
  "parse_chars (concat (map json_escape_char s) @ CHR 0x22 # rest) = Some (s, rest)"
  by (induction s) (simp_all add: parse_chars_escape)

lemma is_digit_codes:
  "is_digit c \<Longrightarrow> c \<noteq> CHR ''n'' \<and> c \<noteq> CHR ''t'' \<and> c \<noteq> CHR ''f'' \<and> c \<noteq> CHR 0x22 \<and>
     c \<noteq> CHR ''['' \<and> c \<noteq> CHR ''{'' \<and> c \<noteq> CHR '']'' \<and> c \<noteq> CHR ''}''"
  by (auto simp: is_digit_def)

lemma dec_int_first:
  "\<exists>c cs. dec_int i = c # cs \<and> c \<noteq> CHR ''n'' \<and> c \<noteq> CHR ''t'' \<and> c \<noteq> CHR ''f'' \<and>
     c \<noteq> CHR 0x22 \<and> c \<noteq> CHR ''['' \<and> c \<noteq> CHR ''{'' \<and> c \<noteq> CHR '']'' \<and> c \<noteq> CHR ''}''"
proof (cases "i < 0")
  case True
  then show ?thesis by (simp add: dec_int_def)
next
  case False
  obtain c cs where "dec_nat (nat i) = c # cs" "is_digit c" using dec_nat_first by blast
  with False is_digit_codes [of c] show ?thesis by (simp add: dec_int_def)
qed

lemma json_dumps_first:
  "\<exists>c cs. json_dumps v = c # cs \<and> c \<noteq> CHR '']'' \<and> c \<noteq> CHR ''}''"
proof (cases v)
  case (JInt i)
  then show ?thesis using dec_int_first [of i] by auto
qed (auto simp: json_string_def)

lemma json_dumps_length: "1 \<le> length (json_dumps v)"
  using json_dumps_first [of v] by auto

lemma not_digit_next_simps:
  "not_digit_next (CHR '']'' # r)" "not_digit_next (CHR '','' # r)" "not_digit_next (CHR ''}'' # r)"
  "not_digit_next []"
  by (simp_all add: not_digit_next_def is_digit_def)

lemma parse_elems_round_trip:
  assumes "\<forall>x \<in> set xs. round_trips x" and "xs \<noteq> []"
    and "length (join '','' (map json_dumps xs)) < n"
  shows "parse_elems n (join '','' (map json_dumps xs) @ CHR '']'' # r) =
           Some (map sort_keys xs, r)"
  using assms
proof (induction xs arbitrary: n rule: induct_list012)
  case 1
  then show ?case by simp
next
  case (2 x)
  then obtain m where n: "n = Suc m" by (cases n) auto
  with 2 have "length (json_dumps x) \<le> m" by simp
  with 2 have "parse_value m (json_dumps x @ CHR '']'' # r) = Some (sort_keys x, CHR '']'' # r)"
    by (simp add: round_trips_def not_digit_next_simps)
  with n show ?case by simp
next
  case (3 x y ys)
  then obtain m where n: "n = Suc m" by (cases n) auto
  let ?rest = "join '','' (map json_dumps (y # ys))"
  from "3.prems"(3) n have len: "length (json_dumps x) + 1 + length ?rest \<le> m" by simp
  then have "length (json_dumps x) \<le> m" by simp
  with "3.prems"(1) have pv: "parse_value m (json_dumps x @ CHR '','' # ?rest @ CHR '']'' # r) =
      Some (sort_keys x, CHR '','' # ?rest @ CHR '']'' # r)"
    by (simp add: round_trips_def not_digit_next_simps)
  have "length ?rest < m" using len json_dumps_length [of x] by simp
  with "3.prems"(1) have "parse_elems m (?rest @ CHR '']'' # r) = Some (map sort_keys (y # ys), r)"
    by (intro "3.IH"(2)) simp_all
  with pv n show ?case by simp
qed

lemma parse_members_step:
  assumes "round_trips (snd kv)" and "length (json_dumps (snd kv)) \<le> m"
    and "not_digit_next (c # rest)"
  shows "parse_members (Suc m) (member_text kv @ c # rest) =
     (if c = CHR ''}'' then Some ([(fst kv, sort_keys (snd kv))], rest)
      else if c = CHR '','' then
        map_option (\<lambda>(items, r). ((fst kv, sort_keys (snd kv)) # items, r)) (parse_members m rest)
      else None)"
proof -
  have "parse_value m (json_dumps (snd kv) @ c # rest) = Some (sort_keys (snd kv), c # rest)"
    using assms by (simp add: round_trips_def)
  then show ?thesis
    by (simp add: member_text_def json_string_def parse_chars_string)
qed

lemma member_text_length: "length (json_dumps (snd kv)) < length (member_text kv)"
  by (simp add: member_text_def json_string_def)

lemma parse_members_round_trip:
  assumes "\<forall>kv \<in> set ms. round_trips (snd kv)" and "ms \<noteq> []"
    and "length (join '','' (map member_text ms)) < n"
  shows "parse_members n (join '','' (map member_text ms) @ CHR ''}'' # r) =
           Some (map (\<lambda>kv. (fst kv, sort_keys (snd kv))) ms, r)"
  using assms
proof (induction ms arbitrary: n rule: induct_list012)
  case 1
  then show ?case by simp
next
  case (2 kv)
  then obtain m where n: "n = Suc m" by (cases n) auto
  with "2.prems"(3) have "length (json_dumps (snd kv)) \<le> m"
    using member_text_length [of kv] by simp
  with "2.prems"(1) n show ?case
    by (simp add: parse_members_step not_digit_next_simps del: parse_value.simps parse_members.simps)
next
  case (3 kv kv' ms)
  then obtain m where n: "n = Suc m" by (cases n) auto
  let ?rest = "join '','' (map member_text (kv' # ms))"
  from "3.prems"(3) n have len: "length (member_text kv) + 1 + length ?rest \<le> m" by simp
  then have "length (json_dumps (snd kv)) \<le> m"
    using member_text_length [of kv] by simp
  with "3.prems"(1) have step:
    "parse_members (Suc m) (member_text kv @ CHR '','' # ?rest @ CHR ''}'' # r) =
       map_option (\<lambda>(items, r). ((fst kv, sort_keys (snd kv)) # items, r))
         (parse_members m (?rest @ CHR ''}'' # r))"
    by (simp add: parse_members_step not_digit_next_simps del: parse_value.simps parse_members.simps)
  have "length ?rest < m" using len by simp
  with "3.prems"(1) have "parse_members m (?rest @ CHR ''}'' # r) =
      Some (map (\<lambda>kv. (fst kv, sort_keys (snd kv))) (kv' # ms), r)"
    by (intro "3.IH"(2)) simp_all
  with step n show ?case by simp
qed

lemma round_trips_all: "round_trips v"
proof (induction v rule: json_dumps.induct)
  case 1
  show ?case
    unfolding round_trips_def
  proof (intro allI impI)
    fix n r
    assume "length (json_dumps JNull) \<le> n \<and> not_digit_next r"
    then obtain m where "n = Suc m" by (cases n) auto
    then show "parse_value n (json_dumps JNull @ r) = Some (sort_keys JNull, r)" by simp
  qed
next
  case (2 b)
  show ?case
    unfolding round_trips_def
  proof (intro allI impI)
    fix n r
    assume "length (json_dumps (JBool b)) \<le> n \<and> not_digit_next r"
    then obtain m where "n = Suc m" by (cases n; cases b) auto
    then show "parse_value n (json_dumps (JBool b) @ r) = Some (sort_keys (JBool b), r)"
      by (cases b) simp_all
  qed
next
  case (3 i)
  show ?case
    unfolding round_trips_def
  proof (intro allI impI)
    fix n r
    assume a: "length (json_dumps (JInt i)) \<le> n \<and> not_digit_next r"
    then obtain m where n: "n = Suc m" using json_dumps_length [of "JInt i"] by (cases n) auto
    obtain c cs where c: "dec_int i = c # cs" "c \<noteq> CHR ''n''" "c \<noteq> CHR ''t''" "c \<noteq> CHR ''f''"
      "c \<noteq> CHR 0x22" "c \<noteq> CHR ''[''" "c \<noteq> CHR ''{''"
      using dec_int_first [of i] by blast
    have "parse_int (dec_int i @ r) = Some (i, r)" using a by (simp add: parse_int_dec_int)
    with c have "parse_value (Suc m) (dec_int i @ r) = Some (JInt i, r)" by simp
    with n show "parse_value n (json_dumps (JInt i) @ r) = Some (sort_keys (JInt i), r)"
      by simp
  qed
next
  case (4 s)
  show ?case
    unfolding round_trips_def
  proof (intro allI impI)
    fix n r
    assume "length (json_dumps (JStr s)) \<le> n \<and> not_digit_next r"
    then obtain m where "n = Suc m" by (cases n) (auto simp: json_string_def)
    then show "parse_value n (json_dumps (JStr s) @ r) = Some (sort_keys (JStr s), r)"
      by (simp add: json_string_def parse_chars_string)
  qed
next
  case (5 xs)
  show ?case
    unfolding round_trips_def
  proof (intro allI impI)
    fix n r
    assume a: "length (json_dumps (JList xs)) \<le> n \<and> not_digit_next r"
    then obtain m where n: "n = Suc m" by (cases n) auto
    show "parse_value n (json_dumps (JList xs) @ r) = Some (sort_keys (JList xs), r)"
    proof (cases "xs = []")
      case True
      with n show ?thesis by simp
    next
      case False
      then obtain x xs' where xs: "xs = x # xs'" by (cases xs) auto
      let ?body = "join '','' (map json_dumps xs)"
      obtain c cs where c: "json_dumps x = c # cs" "c \<noteq> CHR '']''"
        using json_dumps_first [of x] by blast
      then have "\<exists>cs'. ?body = c # cs'" unfolding xs by (cases xs') simp_all
      then obtain cs' where body: "?body = c # cs'" by blast
      from a n have "length ?body < m" by simp
      with 5 False have "parse_elems m (?body @ CHR '']'' # r) = Some (map sort_keys xs, r)"
        by (intro parse_elems_round_trip) simp_all
      with n body c(2) show ?thesis by simp
    qed
  qed
next
  case (6 items)
  show ?case
    unfolding round_trips_def
  proof (intro allI impI)
    fix n r
    assume a: "length (json_dumps (JObj items)) \<le> n \<and> not_digit_next r"
    then obtain m where n: "n = Suc m" by (cases n) auto
    let ?ms = "sort_key fst items"
    have dumps: "json_dumps (JObj items) = ''{'' @ join '','' (map member_text ?ms) @ ''}''"
      by (simp add: member_text_def [abs_def])
    show "parse_value n (json_dumps (JObj items) @ r) = Some (sort_keys (JObj items), r)"
    proof (cases "items = []")
      case True
      with n show ?thesis by simp
    next
      case False
      then have ne: "?ms \<noteq> []" by (metis length_0_conv length_sort)
      then obtain kv ms' where ms: "?ms = kv # ms'" by (cases ?ms) auto
      let ?body = "join '','' (map member_text ?ms)"
      have "\<exists>cs'. ?body = CHR 0x22 # cs'"
        unfolding ms by (cases ms') (simp_all add: member_text_def json_string_def)
      then obtain cs' where body: "?body = CHR 0x22 # cs'" by blast
      from a n have "length ?body < m" unfolding dumps by simp
      with 6 ne have "parse_members m (?body @ CHR ''}'' # r) =
          Some (map (\<lambda>kv. (fst kv, sort_keys (snd kv))) ?ms, r)"
        by (intro parse_members_round_trip) simp_all
      with n body show ?thesis unfolding dumps by simp
    qed
  qed
qed

lemma json_loads_dumps: "json_loads (json_dumps v) = Some (sort_keys v)"
proof -
  have "length (json_dumps v) \<le> length (json_dumps v) \<and> not_digit_next []"
    by (simp add: not_digit_next_simps)
  with round_trips_all [of v]
  have "parse_value (length (json_dumps v)) (json_dumps v @ []) = Some (sort_keys v, [])"
    unfolding round_trips_def by blast
  then show ?thesis by (simp add: json_loads_def)
qed

section \<open>Properties of the vmess payload\<close>

lemma vmess_payload_encode:
  "vmess_payload (''vmess://'' @ b64encode (utf8_encode (json_dumps v))) = Some (sort_keys v)"
  by (simp add: vmess_payload_def b64decode_encode utf8_decode_encode json_loads_dumps)

lemma map_of_dict_set:
  "map_of (dict_set items key v) k = (if k = key then Some v else map_of items k)"
  by (induction items key v rule: dict_set.induct) auto

lemma distinct_dict_set:
  "distinct (map fst items) \<Longrightarrow> distinct (map fst (dict_set items key v))"
  by (induction items key v rule: dict_set.induct) (auto simp: dict_set_keys)

lemma map_of_map_snd:
  fixes xs :: "(string \<times> json) list" and f :: "json \<Rightarrow> json"
  shows "map_of (map (\<lambda>kv. (fst kv, f (snd kv))) xs) k = map_option f (map_of xs k)"
  by (induction xs) auto

lemma map_of_sorted_items:
  fixes items :: "(string \<times> json) list" and f :: "json \<Rightarrow> json"
  assumes "distinct (map fst items)"
  shows "map_of (map (\<lambda>kv. (fst kv, f (snd kv))) (sort_key fst items)) k =
         map_option f (map_of items k)"
proof -
  have d: "distinct (map fst (sort_key fst items))"
    using assms by (simp add: distinct_map)
  have "map_of (sort_key fst items) = map_of items"
    using map_of_inject_set [OF d assms] by simp
  then show ?thesis by (simp add: map_of_map_snd)
qed

lemma create_vmess_url_struct:
  assumes "create_vmess_url info server_address = Inr url"
  shows "\<exists>share_data.
      vmess_share_data info server_address = Inr share_data \<and>
      url = ''vmess://'' @ b64encode (utf8_encode (json_dumps (JObj share_data)))"
  using assms by (auto simp: create_vmess_url_def py_bind_eq_Inr Let_def)

lemma vmess_share_data_cases:
  assumes "vmess_share_data info server_address = Inr share_data"
  shows "(field_or (stream_settings info) ''network'' JNull = JStr ''ws'' \<and>
          share_data =
            dict_set (dict_set (vmess_base info server_address) ''path''
                (field_or (field_or (stream_settings info) ''wsSettings'' (JObj [])) ''path''
                   (JStr ''/'')))
              ''host''
              (field_or
                 (field_or (field_or (stream_settings info) ''wsSettings'' (JObj []))
                    ''headers'' (JObj []))
                 ''Host'' (JStr server_address))) \<or>
         (field_or (stream_settings info) ''network'' JNull = JStr ''grpc'' \<and>
          share_data =
            dict_set (vmess_base info server_address) ''path''
              (field_or (field_or (stream_settings info) ''grpcSettings'' (JObj []))
                 ''serviceName'' JNull)) \<or>
         (field_or (stream_settings info) ''network'' JNull \<noteq> JStr ''ws'' \<and>
          field_or (stream_settings info) ''network'' JNull \<noteq> JStr ''grpc'' \<and>
          share_data = vmess_base info server_address)"
  using assms
  by (auto simp: vmess_share_data_def vmess_base_def py_bind_eq_Inr Let_def dict_get_Inr_iff
      split: if_splits)

lemma vmess_base_distinct: "distinct (map fst (vmess_base info server_address))"
  by (simp add: vmess_base_def)

lemma vmess_share_data_distinct:
  assumes "vmess_share_data info server_address = Inr share_data"
  shows "distinct (map fst share_data)"
  using vmess_share_data_cases [OF assms] vmess_base_distinct [of info server_address]
  by (auto intro: distinct_dict_set)

lemma vmess_share_data_fixed:
  assumes "vmess_share_data info server_address = Inr share_data"
  shows "map_of share_data ''v'' = Some (JStr ''2'')"
    and "map_of share_data ''ps'' = Some (field_or (client_data info) ''email'' (JStr []))"
    and "map_of share_data ''add'' = Some (JStr server_address)"
    and "map_of share_data ''port'' = Some (JStr (py_str (port info)))"
    and "map_of share_data ''id'' = Some (field_or (client_data info) ''id'' JNull)"
    and "map_of share_data ''aid'' =
           Some (JStr (py_str (field_or (client_data info) ''alterId'' (JInt 0))))"
    and "map_of share_data ''net'' = Some (field_or (stream_settings info) ''network'' JNull)"
    and "map_of share_data ''type'' = Some (JStr ''none'')"
    and "map_of share_data ''tls'' =
           Some (if in_tls_xtls (field_or (stream_settings info) ''security'' JNull)
                 then field_or (stream_settings info) ''security'' JNull else JStr ''none'')"
  using vmess_share_data_cases [OF assms]
  by (auto simp: map_of_dict_set vmess_base_def)

lemma vmess_share_data_network:
  assumes "vmess_share_data info server_address = Inr share_data"
  shows "field_or (stream_settings info) ''network'' JNull = JStr ''ws'' \<Longrightarrow>
           map_of share_data ''path'' =
             Some (field_or (field_or (stream_settings info) ''wsSettings'' (JObj [])) ''path''
                     (JStr ''/'')) \<and>
           map_of share_data ''host'' =
             Some (field_or
                     (field_or (field_or (stream_settings info) ''wsSettings'' (JObj []))
                        ''headers'' (JObj []))
                     ''Host'' (JStr server_address))"
    and "field_or (stream_settings info) ''network'' JNull = JStr ''grpc'' \<Longrightarrow>
           map_of share_data ''path'' =
             Some (field_or (field_or (stream_settings info) ''grpcSettings'' (JObj []))
                     ''serviceName'' JNull) \<and>
           map_of share_data ''host'' = None"
    and "field_or (stream_settings info) ''network'' JNull \<noteq> JStr ''ws'' \<Longrightarrow>
         field_or (stream_settings info) ''network'' JNull \<noteq> JStr ''grpc'' \<Longrightarrow>
           map_of share_data ''path'' = None \<and> map_of share_data ''host'' = None"
  using vmess_share_data_cases [OF assms]
  by (auto simp: map_of_dict_set vmess_base_def)

lemma vmess_payload_of_url:
  assumes "create_vmess_url info server_address = Inr url"
  shows "\<exists>share_data payload.
      vmess_share_data info server_address = Inr share_data \<and>
      url = ''vmess://'' @ b64encode (utf8_encode (json_dumps (JObj share_data))) \<and>
      vmess_payload url = Some (JObj payload) \<and>
      payload = map (\<lambda>kv. (fst kv, sort_keys (snd kv))) (sort_key fst share_data) \<and>
      sorted (map fst payload) \<and> distinct (map fst payload) \<and>
      (\<forall>k. map_of payload k = map_option sort_keys (map_of share_data k))"
proof -
  from create_vmess_url_struct [OF assms] obtain share_data where
    s: "vmess_share_data info server_address = Inr share_data" and
    u: "url = ''vmess://'' @ b64encode (utf8_encode (json_dumps (JObj share_data)))"
    by blast
  let ?payload = "map (\<lambda>kv. (fst kv, sort_keys (snd kv))) (sort_key fst share_data)"
  have d: "distinct (map fst share_data)" using s by (rule vmess_share_data_distinct)
  have keys: "map fst ?payload = map fst (sort_key fst share_data)" by (simp add: comp_def)
  have "vmess_payload url = Some (sort_keys (JObj share_data))"
    unfolding u by (rule vmess_payload_encode)
  then have "vmess_payload url = Some (JObj ?payload)" by simp
  moreover have "sorted (map fst ?payload)" unfolding keys by (rule sorted_sort_key)
  moreover have "distinct (map fst ?payload)" unfolding keys using d by (simp add: distinct_map)
  moreover have "\<forall>k. map_of ?payload k = map_option sort_keys (map_of share_data k)"
    using map_of_sorted_items [OF d] by blast
  ultimately show ?thesis using s u by blast
qed

lemma sort_keys_scalar: "hashable v \<Longrightarrow> sort_keys v = v"
  by (cases v) simp_all

lemma json_dumps_object:
  "json_dumps (JObj items) = ''{'' @ join '','' (map member_text (sort_key fst items)) @ ''}''"
  by (simp add: member_text_def [abs_def])

section \<open>Claims about the Client Locator\<close>










section \<open>Claims about the Link Encoders\<close>






text \<open>
  C1. In the configuration with the single vless inbound of the example (port 443,
  WebSocket over TLS, server name and Host \<^verbatim>\<open>example.com\<close>, path \<^verbatim>\<open>/ray\<close>), the locator
  finds the context of the client \<^verbatim>\<open>alice\<close>, and the vless encoder applied to that context
  and the server address \<^verbatim>\<open>1.2.3.4\<close> returns exactly the URL of the specification: the
  parameters in the order type, security, sni, path, host, and the \<^verbatim>\<open>/\<close> of the path
  written \<^verbatim>\<open>%2F\<close>.
\<close>

theorem vless_example_url:
  "find_client_config example_config ''alice'' = Inr (Some example_info) \<and>
   create_vless_url example_info ''1.2.3.4'' =
     Inr ''vless://11111111-1111-1111-1111-111111111111@1.2.3.4:443?type=ws&security=tls&sni=example.com&path=%2Fray&host=example.com#alice''"
  by code_simp

end
